theory Spec2Isabelle
  imports Complex_Main "HOL-Library.Word"
begin

unbundle bit_operations_syntax

section \<open>The alert throttle and dispatch of \<^verbatim>\<open>main.py\<close>\<close>

text \<open>
  \<^verbatim>\<open>log_and_alert\<close> reads and writes two entries of \<^verbatim>\<open>st.session_state\<close>
  (\<^verbatim>\<open>last_alert_time\<close>, a dict from event name to the time of the last alert, and
  \<^verbatim>\<open>logs\<close>, the list shown by the dashboard) and calls three collaborators whose code
  is in other modules: \<^verbatim>\<open>warn_manager.issue_warning\<close>, \<^verbatim>\<open>log_event\<close> and
  \<^verbatim>\<open>notify_tutor\<close>. The state is passed explicitly. Every call of a collaborator is
  recorded in a trace; whether the call returns or raises is a parameter of the model.
  The readings of \<^verbatim>\<open>time.time()\<close> (a number of seconds, modelled as a real) and of
  \<^verbatim>\<open>datetime.now().strftime(...)\<close> are arguments.
\<close>

subsection \<open>State\<close>

text \<open>One dict appended to \<^verbatim>\<open>st.session_state.logs\<close>: keys "Face ID", "Event", "Time".\<close>

record ledger_entry =
  entry_face :: string
  entry_event :: string
  entry_time :: string

text \<open>A call of a collaborator, with its arguments.\<close>

datatype call =
  IssueWarning string
  | LogEvent string string
  | NotifyTutor string

text \<open>
  Modelled from the spec: \<^verbatim>\<open>utils.time_tracker.AbsenceTimer\<close> is not part of the
  source file; its state is the record of section 3 of the specification.
\<close>

record absence_state =
  is_absent :: bool
  absent_since :: "real option"

record state =
  last_alert_time :: "string \<rightharpoonup> real"
  logs :: "ledger_entry list"
  calls :: "call list"
  absence :: absence_state
  released :: bool

datatype exn =
  OverflowError
  | SinkError call

text \<open>A statement either completes with a new state or raises, leaving the state it had reached.\<close>

datatype result = Done state | Raised exn state

fun and_then :: "result \<Rightarrow> (state \<Rightarrow> result) \<Rightarrow> result" where
  "and_then (Done s) f = f s"
| "and_then (Raised e s) f = Raised e s"

subsection \<open>Collaborators\<close>

text \<open>
  What a collaborator call does: it returns (the value, a success flag, is discarded by
  every caller in \<^verbatim>\<open>main.py\<close>) or it raises. The behaviour may depend on all calls made
  before, so that a sink can fail at one time and work at another.
\<close>

datatype outcome = Returned bool | Raises

record sinks =
  issue_warning :: "call list \<Rightarrow> string \<Rightarrow> outcome"
  log_event :: "call list \<Rightarrow> string \<Rightarrow> string \<Rightarrow> outcome"
  notify_tutor :: "call list \<Rightarrow> string \<Rightarrow> outcome"

definition invoke :: "outcome \<Rightarrow> call \<Rightarrow> state \<Rightarrow> result" where
  "invoke out c s =
     (case out of
        Returned _ \<Rightarrow> Done (s\<lparr>calls := calls s @ [c]\<rparr>)
      | Raises \<Rightarrow> Raised (SinkError c) (s\<lparr>calls := calls s @ [c]\<rparr>))"

definition call_issue_warning :: "sinks \<Rightarrow> string \<Rightarrow> state \<Rightarrow> result" where
  "call_issue_warning env event s = invoke (issue_warning env (calls s) event) (IssueWarning event) s"

definition call_log_event :: "sinks \<Rightarrow> string \<Rightarrow> string \<Rightarrow> state \<Rightarrow> result" where
  "call_log_event env face_id event s =
     invoke (log_event env (calls s) face_id event) (LogEvent face_id event) s"

definition call_notify_tutor :: "sinks \<Rightarrow> string \<Rightarrow> state \<Rightarrow> result" where
  "call_notify_tutor env face_id s = invoke (notify_tutor env (calls s) face_id) (NotifyTutor face_id) s"

subsection \<open>\<^verbatim>\<open>log_and_alert\<close>\<close>

definition ALERT_INTERVAL :: real where
  "ALERT_INTERVAL = 10"

text \<open>Line 45: \<^verbatim>\<open>st.session_state.last_alert_time.get(event, 0)\<close>. The face id is not part of the key.\<close>

definition last_time :: "state \<Rightarrow> string \<Rightarrow> real" where
  "last_time s event = (case last_alert_time s event of None \<Rightarrow> 0 | Some t \<Rightarrow> t)"

text \<open>Line 47: the guard \<^verbatim>\<open>now - last_time >= ALERT_INTERVAL\<close>.\<close>

definition admits :: "state \<Rightarrow> string \<Rightarrow> real \<Rightarrow> bool" where
  "admits s event now \<longleftrightarrow> now - last_time s event \<ge> ALERT_INTERVAL"

text \<open>Lines 51 to 56: the ledger append and the update of the timestamp.\<close>

definition record_alert :: "real \<Rightarrow> string \<Rightarrow> string \<Rightarrow> string \<Rightarrow> state \<Rightarrow> state" where
  "record_alert now stamp face_id event s =
     s\<lparr>logs := logs s @ [\<lparr>entry_face = face_id, entry_event = event, entry_time = stamp\<rparr>],
       last_alert_time := (last_alert_time s)(event \<mapsto> now)\<rparr>"

definition log_and_alert :: "sinks \<Rightarrow> real \<Rightarrow> string \<Rightarrow> string \<Rightarrow> string \<Rightarrow> state \<Rightarrow> result" where
  "log_and_alert env now stamp face_id event s =
     (if admits s event now then
        and_then (call_issue_warning env event s) (\<lambda>s1.
        and_then (call_log_event env face_id event s1) (\<lambda>s2.
        and_then (call_notify_tutor env face_id s2) (\<lambda>s3.
        Done (record_alert now stamp face_id event s3))))
      else Done s)"

text \<open>The session state as the script initialises it (lines 24 to 29), nobody absent.\<close>

definition initial :: state where
  "initial = \<lparr>last_alert_time = Map.empty, logs = [], calls = [],
     absence = \<lparr>is_absent = False, absent_since = None\<rparr>, released = False\<rparr>"

text \<open>Collaborators that always return success.\<close>

definition reliable :: sinks where
  "reliable = \<lparr>issue_warning = (\<lambda>_ _. Returned True), log_event = (\<lambda>_ _ _. Returned True),
     notify_tutor = (\<lambda>_ _. Returned True)\<rparr>"

text \<open>Collaborators whose notification sink raises on every call.\<close>

definition notify_down :: sinks where
  "notify_down = \<lparr>issue_warning = (\<lambda>_ _. Returned True), log_event = (\<lambda>_ _ _. Returned True),
     notify_tutor = (\<lambda>_ _. Raises)\<rparr>"

text \<open>Collaborators whose logging and notification sinks return a failure status.\<close>

definition log_reports_failure :: sinks where
  "log_reports_failure = \<lparr>issue_warning = (\<lambda>_ _. Returned True), log_event = (\<lambda>_ _ _. Returned False),
     notify_tutor = (\<lambda>_ _. Returned False)\<rparr>"

subsection \<open>Outcomes of the three collaborator calls\<close>


definition completes :: "outcome \<Rightarrow> bool" where
  "completes out \<longleftrightarrow> out \<noteq> Raises"

text \<open>The trace after the three collaborator calls of an admitted alert.\<close>

definition dispatched :: "string \<Rightarrow> string \<Rightarrow> call list" where
  "dispatched face_id event = [IssueWarning event, LogEvent face_id event, NotifyTutor face_id]"

text \<open>All three collaborators return when called in sequence from state \<open>s\<close>.\<close>

definition sinks_return :: "sinks \<Rightarrow> string \<Rightarrow> string \<Rightarrow> state \<Rightarrow> bool" where
  "sinks_return env face_id event s \<longleftrightarrow>
     completes (issue_warning env (calls s) event)
     \<and> completes (log_event env (calls s @ [IssueWarning event]) face_id event)
     \<and> completes (notify_tutor env (calls s @ [IssueWarning event, LogEvent face_id event]) face_id)"


section \<open>The identity resolver \<^verbatim>\<open>get_face_id\<close>\<close>

subsection \<open>\<^verbatim>\<open>hashlib.md5\<close>\<close>

text \<open>
  \<^verbatim>\<open>hashlib.md5(data).hexdigest()\<close> is the MD5 function of RFC 1321, printed as 32
  lower-case hexadecimal digits. It is written out so that \<^verbatim>\<open>get_face_id\<close> can be
  evaluated: 32-bit words, whose addition wraps, bytes as 8-bit words.
\<close>

type_synonym u32 = "32 word"
type_synonym byte = "8 word"

definition md5_K :: "u32 list" where
  "md5_K = [0xd76aa478, 0xe8c7b756, 0x242070db, 0xc1bdceee, 0xf57c0faf, 0x4787c62a, 0xa8304613, 0xfd469501, 0x698098d8, 0x8b44f7af, 0xffff5bb1, 0x895cd7be, 0x6b901122, 0xfd987193, 0xa679438e, 0x49b40821, 0xf61e2562, 0xc040b340, 0x265e5a51, 0xe9b6c7aa, 0xd62f105d, 0x2441453, 0xd8a1e681, 0xe7d3fbc8, 0x21e1cde6, 0xc33707d6, 0xf4d50d87, 0x455a14ed, 0xa9e3e905, 0xfcefa3f8, 0x676f02d9, 0x8d2a4c8a, 0xfffa3942, 0x8771f681, 0x6d9d6122, 0xfde5380c, 0xa4beea44, 0x4bdecfa9, 0xf6bb4b60, 0xbebfbc70, 0x289b7ec6, 0xeaa127fa, 0xd4ef3085, 0x4881d05, 0xd9d4d039, 0xe6db99e5, 0x1fa27cf8, 0xc4ac5665, 0xf4292244, 0x432aff97, 0xab9423a7, 0xfc93a039, 0x655b59c3, 0x8f0ccc92, 0xffeff47d, 0x85845dd1, 0x6fa87e4f, 0xfe2ce6e0, 0xa3014314, 0x4e0811a1, 0xf7537e82, 0xbd3af235, 0x2ad7d2bb, 0xeb86d391]"

definition md5_s :: "nat list" where
  "md5_s = [7, 12, 17, 22, 7, 12, 17, 22, 7, 12, 17, 22, 7, 12, 17, 22, 5, 9, 14, 20, 5, 9, 14, 20, 5, 9, 14, 20, 5, 9, 14, 20, 4, 11, 16, 23, 4, 11, 16, 23, 4, 11, 16, 23, 4, 11, 16, 23, 6, 10, 15, 21, 6, 10, 15, 21, 6, 10, 15, 21, 6, 10, 15, 21]"

definition md5_F :: "nat \<Rightarrow> u32 \<Rightarrow> u32 \<Rightarrow> u32 \<Rightarrow> u32" where
  "md5_F i b c d =
     (if i < 16 then (b AND c) OR (NOT b AND d)
      else if i < 32 then (d AND b) OR (NOT d AND c)
      else if i < 48 then b XOR c XOR d
      else c XOR (b OR NOT d))"

definition md5_g :: "nat \<Rightarrow> nat" where
  "md5_g i =
     (if i < 16 then i
      else if i < 32 then (5 * i + 1) mod 16
      else if i < 48 then (3 * i + 5) mod 16
      else (7 * i) mod 16)"

definition md5_step :: "u32 list \<Rightarrow> nat \<Rightarrow> u32 \<times> u32 \<times> u32 \<times> u32 \<Rightarrow> u32 \<times> u32 \<times> u32 \<times> u32" where
  "md5_step m i st =
     (case st of (a, b, c, d) \<Rightarrow>
        (d, b + word_rotl (md5_s ! i) (md5_F i b c d + a + md5_K ! i + m ! md5_g i), b, c))"

definition le32 :: "byte list \<Rightarrow> u32" where
  "le32 bs = foldr (\<lambda>b w. ucast b OR push_bit 8 w) bs 0"

fun chunks :: "nat \<Rightarrow> nat \<Rightarrow> 'a list \<Rightarrow> 'a list list" where
  "chunks 0 k xs = []"
| "chunks (Suc n) k xs = take k xs # chunks n k (drop k xs)"

definition md5_block :: "u32 \<times> u32 \<times> u32 \<times> u32 \<Rightarrow> byte list \<Rightarrow> u32 \<times> u32 \<times> u32 \<times> u32" where
  "md5_block h blk =
     (let m = map le32 (chunks 16 4 blk) in
      case h of (a0, b0, c0, d0) \<Rightarrow>
      case fold (md5_step m) [0..<64] h of (a, b, c, d) \<Rightarrow>
        (a0 + a, b0 + b, c0 + c, d0 + d))"

definition bytes_le32 :: "u32 \<Rightarrow> byte list" where
  "bytes_le32 w = map (\<lambda>i. ucast (drop_bit (8 * i) w)) [0, 1, 2, 3]"

definition bytes_le64 :: "64 word \<Rightarrow> byte list" where
  "bytes_le64 w = map (\<lambda>i. ucast (drop_bit (8 * i) w)) [0, 1, 2, 3, 4, 5, 6, 7]"

definition md5_pad :: "byte list \<Rightarrow> byte list" where
  "md5_pad msg = msg @ [0x80] @ replicate ((119 - length msg mod 64) mod 64) 0 @ bytes_le64 (of_nat (8 * length msg))"

definition md5 :: "byte list \<Rightarrow> byte list" where
  "md5 msg =
     (let p = md5_pad msg in
      case fold (\<lambda>blk h. md5_block h blk) (chunks (length p div 64) 64 p)
             (0x67452301, 0xefcdab89, 0x98badcfe, 0x10325476) of
        (a, b, c, d) \<Rightarrow> concat (map bytes_le32 [a, b, c, d]))"

definition hex_digit :: "nat \<Rightarrow> char" where
  "hex_digit n = ''0123456789abcdef'' ! n"

definition hex_byte :: "byte \<Rightarrow> string" where
  "hex_byte b = [hex_digit (unat b div 16), hex_digit (unat b mod 16)]"

definition hexdigest :: "byte list \<Rightarrow> string" where
  "hexdigest bs = concat (map hex_byte bs)"


subsection \<open>Serialisation of the landmarks\<close>

text \<open>
  \<^verbatim>\<open>num.to_bytes(2, byteorder='big', signed=True)\<close> on a Python integer: two bytes in
  two's complement, most significant first; \<^verbatim>\<open>OverflowError\<close> when the integer does not
  fit in 16 signed bits.
\<close>

definition to_bytes :: "int \<Rightarrow> exn + byte list" where
  "to_bytes num =
     (if - 32768 \<le> num \<and> num \<le> 32767
      then Inr [word_of_int (num mod 65536 div 256), word_of_int (num mod 256)]
      else Inl OverflowError)"

text \<open>Line 36: the coordinates of all points in one list, x before y.\<close>

definition flat :: "(int \<times> int) list \<Rightarrow> int list" where
  "flat landmarks = concat (map (\<lambda>(x, y). [x, y]) landmarks)"

text \<open>Lines 37 to 39: the loop that extends the byte array.\<close>

fun extend_all :: "byte list \<Rightarrow> int list \<Rightarrow> exn + byte list" where
  "extend_all data [] = Inr data"
| "extend_all data (num # nums) =
     (case to_bytes num of
        Inl e \<Rightarrow> Inl e
      | Inr bs \<Rightarrow> extend_all (data @ bs) nums)"

text \<open>
  The argument is \<^verbatim>\<open>shape.parts()\<close>: the points of the landmark model, each with integer
  coordinates. The function takes no state and returns none.
\<close>

definition get_face_id :: "(int \<times> int) list \<Rightarrow> exn + string" where
  "get_face_id parts =
     (case extend_all [] (flat parts) of
        Inl e \<Rightarrow> Inl e
      | Inr data \<Rightarrow> Inr (hexdigest (md5 data)))"

text \<open>Line 19: the landmark model \<^verbatim>\<open>shape_predictor_68_face_landmarks.dat\<close> gives 68 points.\<close>

definition landmark_count :: nat where
  "landmark_count = 68"

subsection \<open>The identity resolver in the words of the specification\<close>

text \<open>
  Section 4.1 of the specification: each coordinate is a 16-bit signed value, written
  most significant byte first; the values are concatenated in landmark order and a
  128-bit digest of the buffer is the identifier.
\<close>

definition be16 :: "16 word \<Rightarrow> byte list" where
  "be16 w = [ucast (drop_bit 8 w), ucast w]"

definition spec_buffer :: "(16 word \<times> 16 word) list \<Rightarrow> byte list" where
  "spec_buffer pts = concat (map (\<lambda>(x, y). be16 x @ be16 y) pts)"

definition spec_subject_id :: "(16 word \<times> 16 word) list \<Rightarrow> string" where
  "spec_subject_id pts = hexdigest (md5 (spec_buffer pts))"

definition fits16 :: "int \<Rightarrow> bool" where
  "fits16 n \<longleftrightarrow> - 32768 \<le> n \<and> n \<le> 32767"

definition coords_fit :: "(int \<times> int) list \<Rightarrow> bool" where
  "coords_fit parts \<longleftrightarrow> list_all (\<lambda>(x, y). fits16 x \<and> fits16 y) parts"

definition as_words :: "(int \<times> int) list \<Rightarrow> (16 word \<times> 16 word) list" where
  "as_words parts = map (\<lambda>(x, y). (word_of_int x, word_of_int y)) parts"

definition is_hex :: "char \<Rightarrow> bool" where
  "is_hex c \<longleftrightarrow> c \<in> set ''0123456789abcdef''"

section \<open>The frame loop \<^verbatim>\<open>monitor_stream\<close>\<close>

subsection \<open>The absence timer\<close>

text \<open>
  Modelled from the spec: \<^verbatim>\<open>AbsenceTimer.update\<close> and \<^verbatim>\<open>AbsenceTimer.exceeded_limit\<close>
  are in \<^verbatim>\<open>utils/time_tracker.py\<close>, which is not among the sources. Section 4.2: a frame
  without a face while present records the time, a frame without a face while absent
  changes nothing, a frame with a face clears the record; the limit is exceeded when the
  subject is absent and the time since then is at least the configured threshold.
\<close>

definition timer_update :: "bool \<Rightarrow> real \<Rightarrow> absence_state \<Rightarrow> absence_state" where
  "timer_update absent now a =
     (if absent then (if is_absent a then a else \<lparr>is_absent = True, absent_since = Some now\<rparr>)
      else \<lparr>is_absent = False, absent_since = None\<rparr>)"

definition exceeded_limit :: "real \<Rightarrow> real \<Rightarrow> absence_state \<Rightarrow> bool" where
  "exceeded_limit limit now a =
     (case absent_since a of
        None \<Rightarrow> False
      | Some t \<Rightarrow> is_absent a \<and> now - t \<ge> limit)"

subsection \<open>What one iteration observes\<close>

text \<open>
  The loop is driven by the camera, the detectors and the clock. One record per face holds
  what \<^verbatim>\<open>predictor\<close> and the five classifiers return for it, and the clock readings that
  the call of \<^verbatim>\<open>log_and_alert\<close> for each event makes. One record per iteration holds the
  answers of \<^verbatim>\<open>cap.isOpened()\<close>, \<^verbatim>\<open>cap.read()\<close>, \<^verbatim>\<open>is_camera_on(cap)\<close> and
  \<^verbatim>\<open>detector(gray)\<close>, the clock readings of the iteration's own alert and of the absence
  timer, and the value of \<^verbatim>\<open>st.session_state.get("stop", False)\<close>.
\<close>

record face_obs =
  shape :: "(int \<times> int) list"
  drowsy :: bool
  blinking :: bool
  looking_away :: bool
  head_down :: bool
  talking :: bool
  alert_clock :: "string \<Rightarrow> real"
  alert_stamp :: "string \<Rightarrow> string"

record frame_obs =
  cap_opened :: bool
  ret :: bool
  camera_on :: bool
  faces :: "face_obs list"
  frame_clock :: real
  frame_stamp :: string
  timer_clock :: real
  stop :: bool

text \<open>A face with the given landmarks for which no classifier fires; every clock reading is \<open>t\<close>.\<close>

definition quiet_face :: "(int \<times> int) list \<Rightarrow> real \<Rightarrow> face_obs" where
  "quiet_face parts t =
     \<lparr>shape = parts, drowsy = False, blinking = False, looking_away = False, head_down = False,
      talking = False, alert_clock = (\<lambda>_. t), alert_stamp = (\<lambda>_. ''stamp'')\<rparr>"

subsection \<open>The body of the loop\<close>

definition if_then :: "bool \<Rightarrow> (state \<Rightarrow> result) \<Rightarrow> state \<Rightarrow> result" where
  "if_then b f s = (if b then f s else Done s)"

text \<open>Statements in sequence: the first that raises ends the sequence.\<close>

fun in_order :: "(state \<Rightarrow> result) list \<Rightarrow> state \<Rightarrow> result" where
  "in_order [] s = Done s"
| "in_order (f # fs) s = and_then (f s) (in_order fs)"

definition alert :: "sinks \<Rightarrow> face_obs \<Rightarrow> string \<Rightarrow> string \<Rightarrow> state \<Rightarrow> result" where
  "alert env fo face_id event = log_and_alert env (alert_clock fo event) (alert_stamp fo event) face_id event"

text \<open>
  Lines 85 to 107, the body of \<^verbatim>\<open>for face in faces\<close>. The predictor and the five
  classifiers are taken to return; their answers are in the observation. The list
  \<^verbatim>\<open>alerts\<close> only feeds the status display and is left out, as are the calls that draw
  the page.
\<close>

definition process_face :: "sinks \<Rightarrow> face_obs \<Rightarrow> state \<Rightarrow> result" where
  "process_face env fo s =
     (case get_face_id (shape fo) of
        Inl e \<Rightarrow> Raised e s
      | Inr face_id \<Rightarrow>
          in_order
            [if_then (drowsy fo) (alert env fo face_id ''Drowsiness''),
             if_then (blinking fo) (call_log_event env face_id ''Blinking''),
             if_then (looking_away fo) (alert env fo face_id ''Looking Away''),
             if_then (head_down fo) (alert env fo face_id ''Head Down''),
             if_then (talking fo) (alert env fo face_id ''Talking'')] s)"

text \<open>How an iteration ends: at the next iteration, at \<^verbatim>\<open>break\<close>, or with an exception.\<close>

datatype flow = Next state | Break state | Abort exn state

definition continue :: "result \<Rightarrow> flow" where
  "continue r = (case r of Done s \<Rightarrow> Next s | Raised e s \<Rightarrow> Abort e s)"

text \<open>
  Lines 65 to 117. \<open>limit\<close> is the absence threshold of \<^verbatim>\<open>config.py\<close>, which is not among
  the sources. \<^verbatim>\<open>time.sleep(1)\<close> changes no state; it shows in the later clock readings.
\<close>

definition frame_body :: "sinks \<Rightarrow> real \<Rightarrow> frame_obs \<Rightarrow> state \<Rightarrow> flow" where
  "frame_body env limit f s =
     (if \<not> ret f \<or> \<not> camera_on f then
        continue (log_and_alert env (frame_clock f) (frame_stamp f) ''unknown'' ''Camera turned off'' s)
      else if faces f = [] then
        (let s1 = s\<lparr>absence := timer_update True (timer_clock f) (absence s)\<rparr> in
         if exceeded_limit limit (timer_clock f) (absence s1)
         then continue (log_and_alert env (frame_clock f) (frame_stamp f) ''unknown'' ''User left screen'' s1)
         else Next s1)
      else
        (let s1 = s\<lparr>absence := timer_update False (timer_clock f) (absence s)\<rparr> in
         case in_order (map (process_face env) (faces f)) s1 of
           Raised e s2 \<Rightarrow> Abort e s2
         | Done s2 \<Rightarrow> if stop f then Break s2 else Next s2))"

text \<open>
  The \<^verbatim>\<open>while\<close> loop over the iterations observed so far. \<open>Pending\<close>: the observations
  end while the loop is still running. \<open>Left\<close>: the loop was left, at its condition or at
  \<^verbatim>\<open>break\<close>. \<open>Crashed\<close>: an exception left the function.
\<close>

datatype ending = Pending | Left | Crashed exn

fun frame_loop :: "sinks \<Rightarrow> real \<Rightarrow> frame_obs list \<Rightarrow> state \<Rightarrow> ending \<times> state" where
  "frame_loop env limit [] s = (Pending, s)"
| "frame_loop env limit (f # fs) s =
     (if \<not> cap_opened f then (Left, s)
      else case frame_body env limit f s of
             Next s' \<Rightarrow> frame_loop env limit fs s'
           | Break s' \<Rightarrow> (Left, s')
           | Abort e s' \<Rightarrow> (Crashed e, s'))"

text \<open>
  Lines 59 to 121: after the loop, \<^verbatim>\<open>cap.release()\<close>. There is no \<^verbatim>\<open>try\<close> in the
  function, so an exception leaves it from where it is raised. The message written to the
  page and the reset of the stop flag (lines 120 and 121) are left out: the flag is an
  observation of each iteration.
\<close>

definition monitor_stream :: "sinks \<Rightarrow> real \<Rightarrow> frame_obs list \<Rightarrow> state \<Rightarrow> ending \<times> state" where
  "monitor_stream env limit fs s =
     (case frame_loop env limit fs s of
        (Left, s') \<Rightarrow> (Left, s'\<lparr>released := True\<rparr>)
      | (Pending, s') \<Rightarrow> (Pending, s')
      | (Crashed e, s') \<Rightarrow> (Crashed e, s'))"

subsection \<open>Predicates and observations used in the statements\<close>

text \<open>
  From \<open>s\<close> to \<open>s'\<close> nothing happened but alerts for one subject and one event: the
  absence timer and the capture are as before, only the timestamp of that event may
  differ, the ledger grew by entries for that subject and event, and the collaborators
  were called for them only.
\<close>

definition only_alerts :: "string \<Rightarrow> string \<Rightarrow> state \<Rightarrow> state \<Rightarrow> bool" where
  "only_alerts face_id event s s' \<longleftrightarrow>
     absence s' = absence s \<and> released s' = released s
     \<and> (\<forall>k. k \<noteq> event \<longrightarrow> last_alert_time s' k = last_alert_time s k)
     \<and> (\<exists>new. logs s' = logs s @ new
           \<and> list_all (\<lambda>x. entry_face x = face_id \<and> entry_event x = event) new)
     \<and> (\<exists>cs. calls s' = calls s @ cs \<and> set cs \<subseteq> set (dispatched face_id event))"

text \<open>An iteration whose read fails, with the stop flag set.\<close>

definition dark_frame :: "real \<Rightarrow> frame_obs" where
  "dark_frame t =
     \<lparr>cap_opened = True, ret = False, camera_on = False, faces = [], frame_clock = t,
      frame_stamp = ''stamp'', timer_clock = t, stop = True\<rparr>"

text \<open>A session in which the subject has been absent since time 90.\<close>

definition away :: state where
  "away = initial\<lparr>absence := \<lparr>is_absent = True, absent_since = Some 90\<rparr>\<rparr>"

text \<open>
  The calls \<^verbatim>\<open>log_event(face_id, "Blinking")\<close> of line 98 and the ledger entries for that
  event; the blink log call that one face gives; a face for which at most the blink
  classifier fires; an iteration with a live camera, at least one face and no stop request.
\<close>

definition is_blink_log :: "call \<Rightarrow> bool" where
  "is_blink_log c = (case c of LogEvent _ event \<Rightarrow> event = ''Blinking'' | _ \<Rightarrow> False)"

definition is_blink_entry :: "ledger_entry \<Rightarrow> bool" where
  "is_blink_entry x \<longleftrightarrow> entry_event x = ''Blinking''"




text \<open>
  From \<open>s\<close> to \<open>s'\<close> the blink log calls \<open>d\<close> were made, and nothing else that concerns
  blinking: no ledger entry for it, no timestamp for it, no warning for it.
\<close>

definition blink_step :: "call list \<Rightarrow> state \<Rightarrow> state \<Rightarrow> bool" where
  "blink_step d s s' \<longleftrightarrow>
     filter is_blink_log (calls s') = filter is_blink_log (calls s) @ d
     \<and> filter is_blink_entry (logs s') = filter is_blink_entry (logs s)
     \<and> last_alert_time s' ''Blinking'' = last_alert_time s ''Blinking''
     \<and> filter (\<lambda>c. c = IssueWarning ''Blinking'') (calls s')
         = filter (\<lambda>c. c = IssueWarning ''Blinking'') (calls s)"




text \<open>An iteration in which the detector finds no face, with the stop flag set.\<close>

definition empty_frame :: "real \<Rightarrow> frame_obs" where
  "empty_frame t =
     \<lparr>cap_opened = True, ret = True, camera_on = True, faces = [], frame_clock = t,
      frame_stamp = ''stamp'', timer_clock = t, stop = True\<rparr>"

text \<open>An iteration that sees one face for which no classifier fires, with the stop flag set.\<close>

definition faced_frame :: "real \<Rightarrow> frame_obs" where
  "faced_frame t =
     \<lparr>cap_opened = True, ret = True, camera_on = True, faces = [quiet_face [] t], frame_clock = t,
      frame_stamp = ''stamp'', timer_clock = t, stop = True\<rparr>"

text \<open>
  From \<open>s\<close> to \<open>s'\<close> the ledger grew by entries for events other than blinking, and
  the collaborator calls made, the blink log calls apart, are the three calls of each of
  these entries, in order.
\<close>

definition other_alerts :: "state \<Rightarrow> state \<Rightarrow> bool" where
  "other_alerts s s' \<longleftrightarrow>
     (\<exists>new. logs s' = logs s @ new \<and> list_all (\<lambda>x. \<not> is_blink_entry x) new
        \<and> filter (\<lambda>c. \<not> is_blink_log c) (calls s')
            = filter (\<lambda>c. \<not> is_blink_log c) (calls s)
              @ concat (map (\<lambda>x. dispatched (entry_face x) (entry_event x)) new))"



text \<open>
  A live iteration with two faces: the first has a coordinate that does not fit in 16
  bits, the second is drowsy.
\<close>

definition overflow_frame :: frame_obs where
  "overflow_frame =
     \<lparr>cap_opened = True, ret = True, camera_on = True,
      faces = [quiet_face [(40000, 0)] 100, (quiet_face [] 100)\<lparr>drowsy := True\<rparr>],
      frame_clock = 100, frame_stamp = ''stamp'', timer_clock = 100, stop = False\<rparr>"

section \<open>Facts about the dispatch\<close>

lemma invoke_cases:
  "invoke out c s = (if completes out then Done (s\<lparr>calls := calls s @ [c]\<rparr>)
                     else Raised (SinkError c) (s\<lparr>calls := calls s @ [c]\<rparr>))"
  by (cases out) (simp_all add: invoke_def completes_def)

lemma log_and_alert_suppressed:
  "\<not> admits s event now \<Longrightarrow> log_and_alert env now stamp face_id event s = Done s"
  by (simp add: log_and_alert_def)

lemma log_and_alert_admitted:
  assumes "admits s event now" and "sinks_return env face_id event s"
  shows "log_and_alert env now stamp face_id event s =
           Done (record_alert now stamp face_id event (s\<lparr>calls := calls s @ dispatched face_id event\<rparr>))"
  using assms
  by (simp add: log_and_alert_def sinks_return_def call_issue_warning_def call_log_event_def
      call_notify_tutor_def invoke_cases dispatched_def)

lemma log_and_alert_Done_admitted:
  assumes "admits s event now" and "log_and_alert env now stamp face_id event s = Done s'"
  shows "s' = record_alert now stamp face_id event (s\<lparr>calls := calls s @ dispatched face_id event\<rparr>)"
  using assms
  by (simp add: log_and_alert_def call_issue_warning_def call_log_event_def
      call_notify_tutor_def invoke_cases dispatched_def split: if_splits)

lemma log_and_alert_Raised:
  assumes "log_and_alert env now stamp face_id event s = Raised e s'"
  shows "admits s event now \<and> logs s' = logs s \<and> last_alert_time s' = last_alert_time s
         \<and> absence s' = absence s \<and> released s' = released s"
  using assms
  by (auto simp add: log_and_alert_def call_issue_warning_def call_log_event_def
      call_notify_tutor_def invoke_cases split: if_splits)

lemma last_time_record_alert:
  "last_time (record_alert now stamp face_id event s) ev =
     (if ev = event then now else last_time s ev)"
  by (simp add: last_time_def record_alert_def)

lemma last_time_calls_update [simp]:
  "last_time (s\<lparr>calls := cs\<rparr>) ev = last_time s ev"
  by (simp add: last_time_def)

lemma reliable_returns [simp]: "sinks_return reliable face_id event s"
  by (simp add: sinks_return_def reliable_def completes_def)

lemma initial_last_time [simp]: "last_time initial ev = 0"
  by (simp add: last_time_def initial_def)

lemma admits_initial [simp]: "admits initial ev now \<longleftrightarrow> 10 \<le> now"
  by (simp add: admits_def ALERT_INTERVAL_def)

lemma admitted_appends:
  assumes "admits s event now" and "sinks_return env face_id event s"
  shows "\<exists>s'. log_and_alert env now stamp face_id event s = Done s'
          \<and> logs s' = logs s @ [\<lparr>entry_face = face_id, entry_event = event, entry_time = stamp\<rparr>]
          \<and> last_alert_time s' = (last_alert_time s)(event \<mapsto> now)
          \<and> calls s' = calls s @ dispatched face_id event
          \<and> absence s' = absence s \<and> released s' = released s"
  by (simp add: log_and_alert_admitted [OF assms] record_alert_def)

lemma raising_sink_aborts:
  assumes "admits s event now" and "\<not> sinks_return env face_id event s"
  shows "\<exists>e s'. log_and_alert env now stamp face_id event s = Raised e s'
          \<and> logs s' = logs s \<and> last_alert_time s' = last_alert_time s"
  using assms
  by (auto simp add: log_and_alert_def sinks_return_def call_issue_warning_def call_log_event_def
      call_notify_tutor_def invoke_cases)

section \<open>Facts about the identity resolver\<close>

text \<open>The two bytes of \<^verbatim>\<open>to_bytes\<close> are the bytes of the 16-bit word of the number.\<close>

lemma low_byte: "(word_of_int (n mod 256) :: 8 word) = ucast (word_of_int n :: 16 word)"
proof -
  have "n mod 256 = take_bit 8 n" by (simp add: take_bit_eq_mod)
  then show ?thesis
    by (intro bit_word_eqI) (auto simp add: bit_simps)
qed

lemma high_byte: "(word_of_int (n mod 65536 div 256) :: 8 word) = ucast (drop_bit 8 (word_of_int n :: 16 word))"
proof -
  have "n mod 65536 div 256 = drop_bit 8 (take_bit 16 n)"
    by (simp add: take_bit_eq_mod drop_bit_eq_div)
  then show ?thesis
    by (intro bit_word_eqI) (auto simp add: bit_simps)
qed

lemma sint16: "fits16 n \<Longrightarrow> sint (word_of_int n :: 16 word) = n"
  by (simp add: fits16_def signed_of_int signed_take_bit_int_eq_self)

lemma len_md5: "length (md5 bs) = 16"
  by (simp add: md5_def bytes_le32_def Let_def split: prod.splits)

lemma len_hexdigest: "length (hexdigest bs) = 2 * length bs"
  by (induction bs) (simp_all add: hexdigest_def hex_byte_def)


lemma to_bytes_fits: "fits16 n \<Longrightarrow> to_bytes n = Inr (be16 (word_of_int n))"
  by (simp add: to_bytes_def fits16_def be16_def low_byte high_byte)

lemma to_bytes_overflow: "\<not> fits16 n \<Longrightarrow> to_bytes n = Inl OverflowError"
  by (simp add: to_bytes_def fits16_def)

lemma extend_all_fits:
  "list_all fits16 nums \<Longrightarrow>
   extend_all data nums = Inr (data @ concat (map (\<lambda>n. be16 (word_of_int n)) nums))"
  by (induction nums arbitrary: data) (simp_all add: to_bytes_fits)

lemma extend_all_overflow:
  "\<not> list_all fits16 nums \<Longrightarrow> extend_all data nums = Inl OverflowError"
proof (induction nums arbitrary: data)
  case Nil
  then show ?case by simp
next
  case (Cons n nums)
  show ?case
  proof (cases "fits16 n")
    case True
    with Cons show ?thesis by (simp add: to_bytes_fits)
  next
    case False
    then show ?thesis by (simp add: to_bytes_overflow)
  qed
qed

lemma flat_fits: "list_all fits16 (flat parts) \<longleftrightarrow> coords_fit parts"
  by (induction parts) (auto simp add: flat_def coords_fit_def)

lemma flat_buffer:
  "concat (map (\<lambda>n. be16 (word_of_int n)) (flat parts)) = spec_buffer (as_words parts)"
  by (induction parts) (auto simp add: flat_def spec_buffer_def as_words_def)

lemma get_face_id_fits:
  "coords_fit parts \<Longrightarrow> get_face_id parts = Inr (spec_subject_id (as_words parts))"
  by (simp add: get_face_id_def extend_all_fits flat_fits flat_buffer spec_subject_id_def)

lemma get_face_id_overflow:
  "\<not> coords_fit parts \<Longrightarrow> get_face_id parts = Inl OverflowError"
  by (simp add: get_face_id_def extend_all_overflow flat_fits)

lemma as_words_back:
  "coords_fit parts \<Longrightarrow> map (\<lambda>(x, y). (sint x, sint y)) (as_words parts) = parts"
  by (induction parts) (auto simp add: coords_fit_def as_words_def sint16)

lemma length_spec_buffer: "length (spec_buffer pts) = 4 * length pts"
  by (induction pts) (auto simp add: spec_buffer_def be16_def)

lemma hex_digit_is_hex: "n < 16 \<Longrightarrow> is_hex (hex_digit n)"
  unfolding is_hex_def hex_digit_def by (rule nth_mem) simp

lemma hex_byte_is_hex: "list_all is_hex (hex_byte b)"
proof -
  have "unat b < 256" using unsigned_less [of b] by simp
  then have "unat b div 16 < 16" by simp
  then show ?thesis by (simp add: hex_byte_def hex_digit_is_hex)
qed

lemma hexdigest_is_hex: "list_all is_hex (hexdigest bs)"
  by (induction bs) (simp_all add: hexdigest_def hex_byte_is_hex)

lemma subject_id_shape:
  "length (spec_subject_id pts) = 32 \<and> list_all is_hex (spec_subject_id pts)"
  by (simp add: spec_subject_id_def len_hexdigest len_md5 hexdigest_is_hex)

lemma md5_empty: "hexdigest (md5 []) = ''d41d8cd98f00b204e9800998ecf8427e''"
  by code_simp

lemma md5_two_blocks:
  "hexdigest (md5 (replicate 56 0x61)) = ''3b0c8ac703f828b04c6c197006d17218''"
  by code_simp

lemma md5_abc: "hexdigest (md5 [0x61, 0x62, 0x63]) = ''900150983cd24fb0d6963f7d28e17f72''"
  by code_simp


lemma length_as_words [simp]: "length (as_words parts) = length parts"
  by (simp add: as_words_def)

lemma get_face_id_empty: "get_face_id [] = Inr ''d41d8cd98f00b204e9800998ecf8427e''"
  by (simp add: get_face_id_def flat_def md5_empty)

section \<open>Facts about the frame loop\<close>

lemma only_alerts_refl: "only_alerts face_id event s s"
  by (simp add: only_alerts_def)

lemma only_alerts_trans:
  assumes "only_alerts face_id event s s1" and "only_alerts face_id event s1 s2"
  shows "only_alerts face_id event s s2"
proof -
  from assms obtain n1 n2 c1 c2 where
    l: "logs s1 = logs s @ n1" "logs s2 = logs s1 @ n2"
    "list_all (\<lambda>x. entry_face x = face_id \<and> entry_event x = event) n1"
    "list_all (\<lambda>x. entry_face x = face_id \<and> entry_event x = event) n2"
    and c: "calls s1 = calls s @ c1" "calls s2 = calls s1 @ c2"
    "set c1 \<subseteq> set (dispatched face_id event)" "set c2 \<subseteq> set (dispatched face_id event)"
    unfolding only_alerts_def by blast
  have A: "absence s2 = absence s" "released s2 = released s"
    using assms by (simp_all add: only_alerts_def)
  have K: "\<forall>k. k \<noteq> event \<longrightarrow> last_alert_time s2 k = last_alert_time s k"
    using assms by (simp add: only_alerts_def)
  have L: "\<exists>new. logs s2 = logs s @ new
      \<and> list_all (\<lambda>x. entry_face x = face_id \<and> entry_event x = event) new"
    using l by (intro exI [of _ "n1 @ n2"]) simp
  have C: "\<exists>cs. calls s2 = calls s @ cs \<and> set cs \<subseteq> set (dispatched face_id event)"
    using c by (intro exI [of _ "c1 @ c2"]) simp
  show ?thesis
    unfolding only_alerts_def using A K L C by (intro conjI)
qed

lemma only_alerts_Done:
  assumes "log_and_alert env now stamp face_id event s = Done s'"
  shows "only_alerts face_id event s s'"
proof (cases "admits s event now")
  case False
  with assms show ?thesis by (simp add: log_and_alert_suppressed only_alerts_refl)
next
  case True
  from log_and_alert_Done_admitted [OF True assms] show ?thesis
    by (simp add: only_alerts_def record_alert_def)
qed

lemma raised_state:
  assumes "log_and_alert env now stamp face_id event s = Raised e s'"
  shows "\<exists>cs. s' = s\<lparr>calls := calls s @ cs\<rparr> \<and> set cs \<subseteq> set (dispatched face_id event)
           \<and> cs \<noteq> [] \<and> e = SinkError (last cs)"
proof -
  let ?a = "completes (issue_warning env (calls s) event)"
  let ?b = "completes (log_event env (calls s @ [IssueWarning event]) face_id event)"
  have adm: "admits s event now" using log_and_alert_Raised [OF assms] by simp
  show ?thesis
  proof (cases ?a)
    case False
    with assms adm have "s' = s\<lparr>calls := calls s @ [IssueWarning event]\<rparr> \<and> e = SinkError (IssueWarning event)"
      by (simp add: log_and_alert_def call_issue_warning_def invoke_cases)
    then show ?thesis
      by (intro exI [of _ "[IssueWarning event]"]) (simp add: dispatched_def)
  next
    case a: True
    show ?thesis
    proof (cases ?b)
      case False
      with assms adm a have "s' = s\<lparr>calls := calls s @ [IssueWarning event, LogEvent face_id event]\<rparr>
          \<and> e = SinkError (LogEvent face_id event)"
        by (simp add: log_and_alert_def call_issue_warning_def call_log_event_def invoke_cases)
      then show ?thesis
        by (intro exI [of _ "[IssueWarning event, LogEvent face_id event]"]) (simp add: dispatched_def)
    next
      case True
      with assms adm a have "s' = s\<lparr>calls := calls s @ dispatched face_id event\<rparr>
          \<and> e = SinkError (NotifyTutor face_id)"
        by (simp add: log_and_alert_def call_issue_warning_def call_log_event_def
            call_notify_tutor_def invoke_cases dispatched_def split: if_splits)
      then show ?thesis
        by (intro exI [of _ "dispatched face_id event"]) (simp add: dispatched_def)
    qed
  qed
qed

lemma only_alerts_Raised:
  assumes "log_and_alert env now stamp face_id event s = Raised e s'"
  shows "only_alerts face_id event s s'"
proof -
  from raised_state [OF assms] obtain cs where
    "s' = s\<lparr>calls := calls s @ cs\<rparr>" "set cs \<subseteq> set (dispatched face_id event)" by blast
  then show ?thesis by (simp add: only_alerts_def)
qed

lemma camera_off_body:
  assumes "\<not> ret f \<or> \<not> camera_on f"
  shows "case frame_body env limit f s of
           Next s' \<Rightarrow> only_alerts ''unknown'' ''Camera turned off'' s s'
         | Break s' \<Rightarrow> False
         | Abort e s' \<Rightarrow> only_alerts ''unknown'' ''Camera turned off'' s s'"
proof -
  let ?r = "log_and_alert env (frame_clock f) (frame_stamp f) ''unknown'' ''Camera turned off'' s"
  have b: "frame_body env limit f s = continue ?r"
    using assms by (auto simp add: frame_body_def)
  show ?thesis
  proof (cases ?r)
    case (Done s')
    then show ?thesis using only_alerts_Done [OF Done] b
      by (simp add: continue_def)
  next
    case (Raised e s')
    then show ?thesis using only_alerts_Raised [OF Raised] b
      by (simp add: continue_def)
  qed
qed

lemma camera_off_loop:
  assumes "list_all (\<lambda>f. \<not> ret f \<or> \<not> camera_on f) fs"
  shows "only_alerts ''unknown'' ''Camera turned off'' s (snd (frame_loop env limit fs s))"
  using assms
proof (induction fs arbitrary: s)
  case Nil
  then show ?case by (simp add: only_alerts_refl)
next
  case (Cons f fs)
  then have off: "\<not> ret f \<or> \<not> camera_on f" and rest: "list_all (\<lambda>f. \<not> ret f \<or> \<not> camera_on f) fs"
    by simp_all
  note body = camera_off_body [OF off, where env = env and limit = limit and s = s]
  show ?case
  proof (cases "cap_opened f")
    case False
    then show ?thesis by (simp add: only_alerts_refl)
  next
    case True
    show ?thesis
    proof (cases "frame_body env limit f s")
      case (Next s1)
      with body have 1: "only_alerts ''unknown'' ''Camera turned off'' s s1" by simp
      have 2: "only_alerts ''unknown'' ''Camera turned off'' s1 (snd (frame_loop env limit fs s1))"
        by (rule Cons.IH [OF rest])
      from only_alerts_trans [OF 1 2] Next True show ?thesis by simp
    next
      case (Break s1)
      with body show ?thesis by simp
    next
      case (Abort e s1)
      with body have 1: "only_alerts ''unknown'' ''Camera turned off'' s s1" by simp
      with Abort True show ?thesis by simp
    qed
  qed
qed


lemma away_simps [simp]:
  "last_alert_time away = Map.empty" "logs away = []" "calls away = []"
  "absence away = \<lparr>is_absent = True, absent_since = Some 90\<rparr>" "released away = False"
  by (simp_all add: away_def initial_def)

lemma dark_step:
  "frame_body env limit (dark_frame t) s =
     continue (log_and_alert env t ''stamp'' ''unknown'' ''Camera turned off'' s)"
  by (simp add: frame_body_def dark_frame_def)

lemma dark_loop:
  "frame_loop env limit (dark_frame t # fs) s =
     (case log_and_alert env t ''stamp'' ''unknown'' ''Camera turned off'' s of
        Done s' \<Rightarrow> frame_loop env limit fs s'
      | Raised e s' \<Rightarrow> (Crashed e, s'))"
proof -
  have "cap_opened (dark_frame t)" by (simp add: dark_frame_def)
  then show ?thesis
    by (cases "log_and_alert env t ''stamp'' ''unknown'' ''Camera turned off'' s")
      (simp_all add: dark_step continue_def)
qed

lemma dark_run:
  "fst (frame_loop reliable 5 [dark_frame 100, dark_frame 101, dark_frame 111] away) = Pending
   \<and> map entry_time (logs (snd (frame_loop reliable 5 [dark_frame 100, dark_frame 101, dark_frame 111] away)))
       = [''stamp'', ''stamp'']"
proof -
  have a0: "admits away ''Camera turned off'' 100"
    by (simp add: admits_def last_time_def ALERT_INTERVAL_def)
  let ?s1 = "record_alert 100 ''stamp'' ''unknown'' ''Camera turned off''
     (away\<lparr>calls := calls away @ dispatched ''unknown'' ''Camera turned off''\<rparr>)"
  have r1: "log_and_alert reliable 100 ''stamp'' ''unknown'' ''Camera turned off'' away = Done ?s1"
    by (rule log_and_alert_admitted [OF a0 reliable_returns])
  have a1: "\<not> admits ?s1 ''Camera turned off'' 101"
    by (simp add: admits_def last_time_record_alert ALERT_INTERVAL_def)
  have r2: "log_and_alert reliable 101 ''stamp'' ''unknown'' ''Camera turned off'' ?s1 = Done ?s1"
    by (rule log_and_alert_suppressed [OF a1])
  have a2: "admits ?s1 ''Camera turned off'' 111"
    by (simp add: admits_def last_time_record_alert ALERT_INTERVAL_def)
  let ?s2 = "record_alert 111 ''stamp'' ''unknown'' ''Camera turned off''
     (?s1\<lparr>calls := calls ?s1 @ dispatched ''unknown'' ''Camera turned off''\<rparr>)"
  have r3: "log_and_alert reliable 111 ''stamp'' ''unknown'' ''Camera turned off'' ?s1 = Done ?s2"
    by (rule log_and_alert_admitted [OF a2 reliable_returns])
  have run: "frame_loop reliable 5 [dark_frame 100, dark_frame 101, dark_frame 111] away = (Pending, ?s2)"
    by (simp only: dark_loop r1 r2 r3 result.case frame_loop.simps(1))
  have "map entry_time (logs ?s2) = [''stamp'', ''stamp'']"
    by (simp add: record_alert_def)
  then show ?thesis by (simp only: run fst_conv snd_conv simp_thms)
qed

















lemma initial_simps [simp]:
  "last_alert_time initial = Map.empty" "logs initial = []" "calls initial = []"
  "absence initial = \<lparr>is_absent = False, absent_since = None\<rparr>" "released initial = False"
  by (simp_all add: initial_def)





text \<open>
  \<^verbatim>\<open>cap.release()\<close> follows the loop: it is reached when the loop is left at its condition
  or at \<^verbatim>\<open>break\<close>, and not when an exception leaves the function.
\<close>

lemma monitor_stream_releases:
  "fst (monitor_stream env limit fs s) = Left \<Longrightarrow> released (snd (monitor_stream env limit fs s))"
  by (simp add: monitor_stream_def split: prod.splits ending.splits)

lemma monitor_stream_crash_keeps_capture:
  "fst (monitor_stream env limit fs s) = Crashed e \<Longrightarrow>
   snd (monitor_stream env limit fs s) = snd (frame_loop env limit fs s)"
  by (simp add: monitor_stream_def split: prod.splits ending.splits)

lemma empty_step:
  "frame_body env 5 (empty_frame 100) initial =
     Next (initial\<lparr>absence := \<lparr>is_absent = True, absent_since = Some 100\<rparr>\<rparr>)"
  by (simp add: frame_body_def empty_frame_def timer_update_def exceeded_limit_def)

lemma faced_step:
  "frame_body env 5 (faced_frame 100) initial =
     Break (initial\<lparr>absence := \<lparr>is_absent = False, absent_since = None\<rparr>\<rparr>)"
  by (simp add: frame_body_def faced_frame_def timer_update_def process_face_def quiet_face_def
      get_face_id_empty if_then_def)

lemma opened_frames [simp]:
  "cap_opened (dark_frame t)" "cap_opened (empty_frame t)" "cap_opened (faced_frame t)"
  "stop (dark_frame t)" "stop (empty_frame t)" "stop (faced_frame t)"
  by (simp_all add: dark_frame_def empty_frame_def faced_frame_def)


text \<open>An overflow in \<^verbatim>\<open>get_face_id\<close> leaves the loop over the faces and the frame loop.\<close>

lemma in_order_append:
  "in_order (fs @ gs) s = and_then (in_order fs s) (in_order gs)"
proof (induction fs arbitrary: s)
  case Nil
  show ?case by simp
next
  case (Cons f fs)
  show ?case by (cases "f s") (simp_all add: Cons.IH)
qed

lemma overflow_leaves_faces:
  assumes "\<not> coords_fit (shape fo)"
    and "in_order (map (process_face env) pre) s1 = Done s2"
  shows "in_order (map (process_face env) (pre @ fo # post)) s1 = Raised OverflowError s2"
  using assms
  by (simp add: in_order_append process_face_def get_face_id_overflow)

lemma overflow_leaves_body:
  assumes "ret f" "camera_on f" "faces f = pre @ fo # post" "\<not> coords_fit (shape fo)"
    and "in_order (map (process_face env) pre)
           (s\<lparr>absence := timer_update False (timer_clock f) (absence s)\<rparr>) = Done s2"
  shows "frame_body env limit f s = Abort OverflowError s2"
  using assms(1-3) overflow_leaves_faces [OF assms(4,5), where post = post]
  by (simp add: frame_body_def Let_def)

lemma overflow_leaves_loop:
  assumes "cap_opened f" "ret f" "camera_on f" "faces f = pre @ fo # post" "\<not> coords_fit (shape fo)"
    and "in_order (map (process_face env) pre)
           (s\<lparr>absence := timer_update False (timer_clock f) (absence s)\<rparr>) = Done s2"
  shows "frame_loop env limit (f # fs) s = (Crashed OverflowError, s2)
         \<and> monitor_stream env limit (f # fs) s = (Crashed OverflowError, s2)"
  using assms(1) overflow_leaves_body [OF assms(2-6), where limit = limit]
  by (simp add: monitor_stream_def)

lemma overflow_frame_simps:
  "cap_opened overflow_frame" "ret overflow_frame" "camera_on overflow_frame"
  "faces overflow_frame = [] @ quiet_face [(40000, 0)] 100 # [(quiet_face [] 100)\<lparr>drowsy := True\<rparr>]"
  "timer_clock overflow_frame = 100"
  by (simp_all add: overflow_frame_def)












lemma steps_absence [simp]:
  "blink_step d (s\<lparr>absence := a\<rparr>) s' = blink_step d s s'"
  "other_alerts (s\<lparr>absence := a\<rparr>) s' = other_alerts s s'"
  by (simp_all add: blink_step_def other_alerts_def)










lemma admits_absence [simp]: "admits (s\<lparr>absence := a\<rparr>) ev t = admits s ev t"
  by (simp add: admits_def last_time_def)





section \<open>Properties of the throttle\<close>

text \<open>
  Claim C4. When the guard of \<^verbatim>\<open>log_and_alert\<close> fails (\<^verbatim>\<open>now - last < ALERT_INTERVAL\<close> for
  the stored timestamp of the event, 0 when there is none), the call completes and leaves
  everything as it was: the timestamp map, the ledger and the trace of collaborator calls
  (so no warning is issued to the warning manager, nothing is logged and nobody is
  notified).
\<close>

theorem suppressed_changes_nothing:
  assumes "now - last_time s event < ALERT_INTERVAL"
  shows "log_and_alert env now stamp face_id event s = Done s"
  using assms by (simp add: log_and_alert_def admits_def)

theorem suppressed_changes_nothing_witness:
  "(5::real) - last_time initial ''Drowsiness'' < ALERT_INTERVAL
   \<and> log_and_alert reliable 5 ''2024-01-01 00:00:05'' ''f'' ''Drowsiness'' initial = Done initial"
proof -
  have h: "(5::real) - last_time initial ''Drowsiness'' < ALERT_INTERVAL"
    by (simp add: last_time_def initial_def ALERT_INTERVAL_def)
  from suppressed_changes_nothing [OF h] show ?thesis using h by simp
qed





text \<open>
  Claim C2, as stated, for a key that has no timestamp yet: the first call at \<open>t1 = 5\<close> is
  not admitted (the missing timestamp reads as 0 and \<open>5 - 0 < 10\<close>), so the two calls at
  5 and 7 are both suppressed and the ledger stays empty.
\<close>

theorem two_calls_counterexample:
  "(5::real) < 7 \<and> (7::real) - 5 < ALERT_INTERVAL
   \<and> log_and_alert reliable 5 ''1970-01-01 00:00:05'' ''f'' ''Talking'' initial = Done initial
   \<and> log_and_alert reliable 7 ''1970-01-01 00:00:07'' ''f'' ''Talking'' initial = Done initial
   \<and> logs initial = []"
  by (simp add: log_and_alert_suppressed ALERT_INTERVAL_def)

text \<open>
  Claim C2, amended: when the first call is at least \<open>ALERT_INTERVAL\<close> after the stored
  timestamp of the event (0 when there is none, so \<open>t1 \<ge> 10\<close> for a fresh key) and the
  collaborators return, the first call is admitted: it appends the ledger entry and stores
  \<open>t1\<close>. A second call for the same event at \<open>t2 > t1\<close> is suppressed when
  \<open>t2 - t1 < ALERT_INTERVAL\<close>; otherwise it passes the guard and, the collaborators
  returning, appends a second entry.
\<close>

theorem two_calls:
  assumes first: "ALERT_INTERVAL \<le> t1 - last_time s event"
    and ordered: "t1 < t2"
    and ok1: "sinks_return env face_id event s"
  shows "\<exists>s1. log_and_alert env t1 stamp1 face_id event s = Done s1
          \<and> logs s1 = logs s @ [\<lparr>entry_face = face_id, entry_event = event, entry_time = stamp1\<rparr>]
          \<and> last_alert_time s1 event = Some t1
          \<and> (if t2 - t1 < ALERT_INTERVAL
              then log_and_alert env t2 stamp2 face_id event s1 = Done s1
              else admits s1 event t2
                   \<and> (sinks_return env face_id event s1 \<longrightarrow>
                       (\<exists>s2. log_and_alert env t2 stamp2 face_id event s1 = Done s2
                         \<and> logs s2 = logs s1 @ [\<lparr>entry_face = face_id, entry_event = event, entry_time = stamp2\<rparr>])))"
proof -
  have adm: "admits s event t1" using first by (simp add: admits_def)
  from admitted_appends [OF adm ok1, where stamp = stamp1] obtain s1 where
    run1: "log_and_alert env t1 stamp1 face_id event s = Done s1"
    and logs1: "logs s1 = logs s @ [\<lparr>entry_face = face_id, entry_event = event, entry_time = stamp1\<rparr>]"
    and map1: "last_alert_time s1 = (last_alert_time s)(event \<mapsto> t1)"
    by blast
  have lt: "last_time s1 event = t1" by (simp add: last_time_def map1)
  have second: "admits s1 event t2 \<longleftrightarrow> \<not> t2 - t1 < ALERT_INTERVAL"
    by (auto simp add: admits_def lt)
  have tail: "if t2 - t1 < ALERT_INTERVAL
          then log_and_alert env t2 stamp2 face_id event s1 = Done s1
          else admits s1 event t2
               \<and> (sinks_return env face_id event s1 \<longrightarrow>
                   (\<exists>s2. log_and_alert env t2 stamp2 face_id event s1 = Done s2
                     \<and> logs s2 = logs s1 @ [\<lparr>entry_face = face_id, entry_event = event, entry_time = stamp2\<rparr>]))"
  proof (cases "t2 - t1 < ALERT_INTERVAL")
    case True
    then show ?thesis using second by (simp add: log_and_alert_suppressed)
  next
    case False
    then have a2: "admits s1 event t2" using second by simp
    show ?thesis using False a2 admitted_appends [OF a2, where env = env and face_id = face_id and stamp = stamp2] by auto
  qed
  show ?thesis using run1 logs1 map1 tail by auto
qed

theorem two_calls_witness:
  "ALERT_INTERVAL \<le> 100 - last_time initial ''Talking'' \<and> (100::real) < 105
   \<and> sinks_return reliable ''f'' ''Talking'' initial
   \<and> (\<exists>s1. log_and_alert reliable 100 ''a'' ''f'' ''Talking'' initial = Done s1
         \<and> logs s1 = logs initial @ [\<lparr>entry_face = ''f'', entry_event = ''Talking'', entry_time = ''a''\<rparr>]
         \<and> last_alert_time s1 ''Talking'' = Some 100
         \<and> log_and_alert reliable 105 ''b'' ''f'' ''Talking'' s1 = Done s1)"
proof -
  have h1: "ALERT_INTERVAL \<le> 100 - last_time initial ''Talking''"
    by (simp add: ALERT_INTERVAL_def)
  have h2: "(100::real) < 105" by simp
  have h3: "sinks_return reliable ''f'' ''Talking'' initial" by simp
  have "(105::real) - 100 < ALERT_INTERVAL" by (simp add: ALERT_INTERVAL_def)
  with two_calls [OF h1 h2 h3, where ?stamp1.0 = "''a''" and ?stamp2.0 = "''b''"] show ?thesis using h1 h3 by simp
qed

text \<open>
  Claim C3, as stated: a notification sink that raises does not prevent the ledger append.
  In the code the exception leaves \<^verbatim>\<open>log_and_alert\<close> before lines 51 to 56: the alert
  passes the guard, the three collaborators are called, and neither the ledger nor the
  timestamp map changes.
\<close>

theorem notify_failure_counterexample:
  "admits initial ''Drowsiness'' 100
   \<and> log_and_alert notify_down 100 ''t'' ''f'' ''Drowsiness'' initial =
       Raised (SinkError (NotifyTutor ''f'')) (initial\<lparr>calls := dispatched ''f'' ''Drowsiness''\<rparr>)
   \<and> logs (initial\<lparr>calls := dispatched ''f'' ''Drowsiness''\<rparr>) = []
   \<and> last_alert_time (initial\<lparr>calls := dispatched ''f'' ''Drowsiness''\<rparr>) ''Drowsiness'' = None"
  by (simp add: log_and_alert_def call_issue_warning_def call_log_event_def
      call_notify_tutor_def invoke_cases notify_down_def completes_def dispatched_def)

text \<open>
  Claim C3, amended: when the guard passes and the calls of \<^verbatim>\<open>issue_warning\<close>,
  \<^verbatim>\<open>log_event\<close> and \<^verbatim>\<open>notify_tutor\<close> all return, whatever status they report, the
  ledger entry is appended and the timestamp of the event is set to \<open>now\<close>; when one of
  them raises, the exception leaves \<^verbatim>\<open>log_and_alert\<close> and the ledger and the timestamp
  map are as before.
\<close>

theorem ledger_append_needs_returning_sinks:
  assumes "admits s event now"
  shows "(sinks_return env face_id event s \<longrightarrow>
           (\<exists>s'. log_and_alert env now stamp face_id event s = Done s'
             \<and> logs s' = logs s @ [\<lparr>entry_face = face_id, entry_event = event, entry_time = stamp\<rparr>]
             \<and> last_alert_time s' = (last_alert_time s)(event \<mapsto> now)))
       \<and> (\<not> sinks_return env face_id event s \<longrightarrow>
           (\<exists>e s'. log_and_alert env now stamp face_id event s = Raised e s'
             \<and> logs s' = logs s \<and> last_alert_time s' = last_alert_time s))"
  using admitted_appends [OF assms, where env = env and face_id = face_id and stamp = stamp]
    raising_sink_aborts [OF assms, where env = env and face_id = face_id and stamp = stamp]
  by blast

theorem ledger_append_needs_returning_sinks_witness:
  "admits initial ''Talking'' 20
   \<and> sinks_return log_reports_failure ''f'' ''Talking'' initial
   \<and> (\<exists>s'. log_and_alert log_reports_failure 20 ''t'' ''f'' ''Talking'' initial = Done s'
         \<and> logs s' = logs initial @ [\<lparr>entry_face = ''f'', entry_event = ''Talking'', entry_time = ''t''\<rparr>]
         \<and> last_alert_time s' = (last_alert_time initial)(''Talking'' \<mapsto> 20))
   \<and> \<not> sinks_return notify_down ''f'' ''Talking'' initial
   \<and> (\<exists>e s'. log_and_alert notify_down 20 ''t'' ''f'' ''Talking'' initial = Raised e s'
         \<and> logs s' = logs initial \<and> last_alert_time s' = last_alert_time initial)"
proof -
  have h: "admits initial ''Talking'' 20" by simp
  have ok: "sinks_return log_reports_failure ''f'' ''Talking'' initial"
    by (simp add: sinks_return_def log_reports_failure_def completes_def)
  have bad: "\<not> sinks_return notify_down ''f'' ''Talking'' initial"
    by (simp add: sinks_return_def notify_down_def completes_def)
  from ledger_append_needs_returning_sinks [OF h, where env = log_reports_failure and face_id = "''f''" and stamp = "''t''"]
    ledger_append_needs_returning_sinks [OF h, where env = notify_down and face_id = "''f''" and stamp = "''t''"]
  show ?thesis using h ok bad by blast
qed

text \<open>
  Claim C6, as stated: a key without a stored timestamp is admitted at every time. In the
  code the missing timestamp reads as 0: at \<open>now = 5\<close> the first alert for a fresh event
  is suppressed.
\<close>

theorem fresh_key_counterexample:
  "last_alert_time initial ''Drowsiness'' = None
   \<and> \<not> admits initial ''Drowsiness'' 5
   \<and> log_and_alert reliable 5 ''1970-01-01 00:00:05'' ''f'' ''Drowsiness'' initial = Done initial"
  by (simp add: log_and_alert_suppressed)

text \<open>
  Claim C6, amended: a key without a stored timestamp is treated as having the timestamp 0.
  The first alert for it passes the guard exactly when \<open>now \<ge> ALERT_INTERVAL\<close>: before
  that it is suppressed, from then on it is dispatched (the collaborators returning).
\<close>

theorem fresh_key_reads_as_zero:
  assumes "last_alert_time s event = None"
  shows "admits s event now = (ALERT_INTERVAL \<le> now)
         \<and> (now < ALERT_INTERVAL \<longrightarrow> log_and_alert env now stamp face_id event s = Done s)
         \<and> (ALERT_INTERVAL \<le> now \<and> sinks_return env face_id event s \<longrightarrow>
              log_and_alert env now stamp face_id event s =
                Done (record_alert now stamp face_id event (s\<lparr>calls := calls s @ dispatched face_id event\<rparr>)))"
proof -
  have key: "admits s event now = (ALERT_INTERVAL \<le> now)"
    using assms by (simp add: admits_def last_time_def)
  show ?thesis
    using key by (auto simp add: log_and_alert_suppressed log_and_alert_admitted)
qed

theorem fresh_key_reads_as_zero_witness:
  "last_alert_time initial ''Head Down'' = None
   \<and> admits initial ''Head Down'' 9 = (ALERT_INTERVAL \<le> 9)
   \<and> log_and_alert reliable 9 ''t'' ''f'' ''Head Down'' initial = Done initial
   \<and> log_and_alert reliable 10 ''t'' ''f'' ''Head Down'' initial =
        Done (record_alert 10 ''t'' ''f'' ''Head Down'' (initial\<lparr>calls := calls initial @ dispatched ''f'' ''Head Down''\<rparr>))"
proof -
  have h: "last_alert_time initial ''Head Down'' = None" by (simp add: initial_def)
  have a: "(9::real) < ALERT_INTERVAL" and b: "ALERT_INTERVAL \<le> (10::real)"
    by (simp_all add: ALERT_INTERVAL_def)
  show ?thesis
    using fresh_key_reads_as_zero [OF h, where now = 9 and env = reliable and stamp = "''t''" and face_id = "''f''"]
      fresh_key_reads_as_zero [OF h, where now = 10 and env = reliable and stamp = "''t''" and face_id = "''f''"]
      h a b
    by simp
qed


section \<open>Properties of the identity resolver\<close>

text \<open>
  Claim C8, as stated: a landmark sequence that is empty or shorter than the landmark count
  is rejected with a typed error. The code has no check of the length: for the empty
  sequence \<^verbatim>\<open>get_face_id\<close> returns the MD5 digest of the empty byte string.
\<close>

theorem empty_landmarks_counterexample:
  "length ([] :: (int \<times> int) list) < landmark_count
   \<and> get_face_id [] = Inr ''d41d8cd98f00b204e9800998ecf8427e''"
  by (simp add: landmark_count_def get_face_id_empty)

text \<open>
  Claim C8, amended: \<^verbatim>\<open>get_face_id\<close> does not look at the number of landmarks. Its only
  error is \<^verbatim>\<open>OverflowError\<close>, raised exactly when a coordinate does not fit in 16 signed
  bits. A sequence shorter than the landmark count whose coordinates fit gets the digest
  of the data it has, and a face whose coordinates fit, whatever their number, is
  processed under that identifier: the five verdicts are acted on with it. When a
  coordinate of a face does not fit, the face is not skipped: the exception leaves the
  processing of the face, the frame loop and \<^verbatim>\<open>monitor_stream\<close> in the state that the
  faces before it left, and neither the faces after it nor the later frames are
  processed.
\<close>

theorem landmark_count_not_checked:
  "(get_face_id parts = Inl e \<longleftrightarrow> e = OverflowError \<and> \<not> coords_fit parts)
   \<and> (length parts < landmark_count \<and> coords_fit parts \<longrightarrow>
        get_face_id parts = Inr (spec_subject_id (as_words parts)))
   \<and> (coords_fit (shape fo) \<longrightarrow>
        process_face env fo s =
          in_order
            [if_then (drowsy fo) (alert env fo (spec_subject_id (as_words (shape fo))) ''Drowsiness''),
             if_then (blinking fo) (call_log_event env (spec_subject_id (as_words (shape fo))) ''Blinking''),
             if_then (looking_away fo) (alert env fo (spec_subject_id (as_words (shape fo))) ''Looking Away''),
             if_then (head_down fo) (alert env fo (spec_subject_id (as_words (shape fo))) ''Head Down''),
             if_then (talking fo) (alert env fo (spec_subject_id (as_words (shape fo))) ''Talking'')] s)
   \<and> (\<not> coords_fit (shape fo) \<longrightarrow> process_face env fo s = Raised OverflowError s)
   \<and> (cap_opened f \<and> ret f \<and> camera_on f \<and> faces f = pre @ fo # post
        \<and> \<not> coords_fit (shape fo)
        \<and> in_order (map (process_face env) pre)
             (s\<lparr>absence := timer_update False (timer_clock f) (absence s)\<rparr>) = Done s2 \<longrightarrow>
        frame_loop env limit (f # fs) s = (Crashed OverflowError, s2)
        \<and> monitor_stream env limit (f # fs) s = (Crashed OverflowError, s2))"
proof (intro conjI)
  show "get_face_id parts = Inl e \<longleftrightarrow> e = OverflowError \<and> \<not> coords_fit parts"
    by (cases "coords_fit parts") (auto simp add: get_face_id_fits get_face_id_overflow)
  show "length parts < landmark_count \<and> coords_fit parts \<longrightarrow>
        get_face_id parts = Inr (spec_subject_id (as_words parts))"
    by (simp add: get_face_id_fits)
  show "coords_fit (shape fo) \<longrightarrow>
        process_face env fo s =
          in_order
            [if_then (drowsy fo) (alert env fo (spec_subject_id (as_words (shape fo))) ''Drowsiness''),
             if_then (blinking fo) (call_log_event env (spec_subject_id (as_words (shape fo))) ''Blinking''),
             if_then (looking_away fo) (alert env fo (spec_subject_id (as_words (shape fo))) ''Looking Away''),
             if_then (head_down fo) (alert env fo (spec_subject_id (as_words (shape fo))) ''Head Down''),
             if_then (talking fo) (alert env fo (spec_subject_id (as_words (shape fo))) ''Talking'')] s"
    by (simp add: process_face_def get_face_id_fits)
  show "\<not> coords_fit (shape fo) \<longrightarrow> process_face env fo s = Raised OverflowError s"
    by (simp add: process_face_def get_face_id_overflow)
  show "cap_opened f \<and> ret f \<and> camera_on f \<and> faces f = pre @ fo # post
        \<and> \<not> coords_fit (shape fo)
        \<and> in_order (map (process_face env) pre)
             (s\<lparr>absence := timer_update False (timer_clock f) (absence s)\<rparr>) = Done s2 \<longrightarrow>
        frame_loop env limit (f # fs) s = (Crashed OverflowError, s2)
        \<and> monitor_stream env limit (f # fs) s = (Crashed OverflowError, s2)"
    using overflow_leaves_loop by blast
qed

theorem landmark_count_not_checked_witness:
  "length ([] :: (int \<times> int) list) < landmark_count \<and> coords_fit []
   \<and> get_face_id [] = Inr (spec_subject_id (as_words []))
   \<and> coords_fit (shape ((quiet_face [] 100)\<lparr>drowsy := True\<rparr>))
   \<and> process_face reliable ((quiet_face [] 100)\<lparr>drowsy := True\<rparr>) initial =
       Done (record_alert 100 ''stamp'' ''d41d8cd98f00b204e9800998ecf8427e'' ''Drowsiness''
         (initial\<lparr>calls := dispatched ''d41d8cd98f00b204e9800998ecf8427e'' ''Drowsiness''\<rparr>))
   \<and> \<not> coords_fit (shape (quiet_face [(40000, 0)] 100))
   \<and> process_face reliable (quiet_face [(40000, 0)] 100) initial = Raised OverflowError initial
   \<and> frame_loop reliable 5 [overflow_frame, dark_frame 101] initial = (Crashed OverflowError, initial)
   \<and> monitor_stream reliable 5 [overflow_frame, dark_frame 101] initial = (Crashed OverflowError, initial)
   \<and> calls initial = [] \<and> \<not> released initial"
proof -
  let ?ok = "(quiet_face [] 100)\<lparr>drowsy := True\<rparr>"
  let ?bad = "quiet_face [(40000, 0)] 100"
  have h1: "length ([] :: (int \<times> int) list) < landmark_count \<and> coords_fit []"
    by (simp add: landmark_count_def coords_fit_def)
  have h2: "coords_fit (shape ?ok)" by (simp add: quiet_face_def coords_fit_def)
  have h3: "\<not> coords_fit (shape ?bad)"
    by (simp add: quiet_face_def coords_fit_def fits16_def)
  have h4: "cap_opened overflow_frame \<and> ret overflow_frame \<and> camera_on overflow_frame
      \<and> faces overflow_frame = [] @ ?bad # [?ok] \<and> \<not> coords_fit (shape ?bad)
      \<and> in_order (map (process_face reliable) [])
           (initial\<lparr>absence := timer_update False (timer_clock overflow_frame) (absence initial)\<rparr>) = Done initial"
    using h3 by (simp add: overflow_frame_simps timer_update_def initial_def)
  note t = landmark_count_not_checked [where parts = "[]" and fo = ?ok and env = reliable and s = initial]
  note u = landmark_count_not_checked [where fo = ?bad and env = reliable and s = initial
      and f = overflow_frame and pre = "[]" and post = "[?ok]" and ?s2.0 = initial and limit = 5
      and fs = "[dark_frame 101]"]
  have w1: "get_face_id [] = Inr (spec_subject_id (as_words []))"
    using t h1 by blast
  have a: "admits initial ''Drowsiness'' 100" by simp
  have d: "spec_subject_id (as_words (shape ?ok)) = ''d41d8cd98f00b204e9800998ecf8427e''"
    using get_face_id_fits [OF h2] by (simp add: quiet_face_def get_face_id_empty)
  have p: "process_face reliable ?ok initial =
      in_order
        [if_then (drowsy ?ok) (alert reliable ?ok (spec_subject_id (as_words (shape ?ok))) ''Drowsiness''),
         if_then (blinking ?ok) (call_log_event reliable (spec_subject_id (as_words (shape ?ok))) ''Blinking''),
         if_then (looking_away ?ok) (alert reliable ?ok (spec_subject_id (as_words (shape ?ok))) ''Looking Away''),
         if_then (head_down ?ok) (alert reliable ?ok (spec_subject_id (as_words (shape ?ok))) ''Head Down''),
         if_then (talking ?ok) (alert reliable ?ok (spec_subject_id (as_words (shape ?ok))) ''Talking'')] initial"
    using t h2 by blast
  have w2: "process_face reliable ?ok initial =
       Done (record_alert 100 ''stamp'' ''d41d8cd98f00b204e9800998ecf8427e'' ''Drowsiness''
         (initial\<lparr>calls := dispatched ''d41d8cd98f00b204e9800998ecf8427e'' ''Drowsiness''\<rparr>))"
    unfolding p d
    by (simp add: quiet_face_def if_then_def alert_def log_and_alert_admitted [OF a reliable_returns])
  have w3: "process_face reliable ?bad initial = Raised OverflowError initial"
    using u h3 by blast
  have w4: "frame_loop reliable 5 [overflow_frame, dark_frame 101] initial = (Crashed OverflowError, initial)
      \<and> monitor_stream reliable 5 [overflow_frame, dark_frame 101] initial = (Crashed OverflowError, initial)"
    using u h4 by blast
  show ?thesis using h1 h2 h3 w1 w2 w3 w4 by simp
qed

text \<open>
  Claim C9. On every landmark sequence whose coordinates fit in 16 signed bits
  \<^verbatim>\<open>get_face_id\<close> returns, and what it returns is the identifier of the specification:
  each coordinate as a 16-bit signed value (reading the word back as a signed number gives
  the coordinate), most significant byte first, four bytes per landmark in landmark
  order, and of that buffer a digest of 16 bytes, that is 128 bits, printed as 32
  hexadecimal digits. Equal sequences get equal identifiers. The function has no state to
  read or change: \<open>get_face_id\<close> takes the landmarks only.
\<close>

theorem get_face_id_is_spec_digest:
  assumes "coords_fit parts"
  shows "get_face_id parts = Inr (spec_subject_id (as_words parts))
         \<and> map (\<lambda>(x, y). (sint x, sint y)) (as_words parts) = parts
         \<and> length (spec_buffer (as_words parts)) = 4 * length parts
         \<and> length (md5 (spec_buffer (as_words parts))) = 16
         \<and> length (spec_subject_id (as_words parts)) = 32
         \<and> list_all is_hex (spec_subject_id (as_words parts))
         \<and> (\<forall>parts'. parts' = parts \<longrightarrow> get_face_id parts' = get_face_id parts)"
  using assms
  by (simp add: get_face_id_fits as_words_back length_spec_buffer len_md5 subject_id_shape)

theorem get_face_id_is_spec_digest_witness:
  "coords_fit [(1, - 2)]
   \<and> get_face_id [(1, - 2)] = Inr (spec_subject_id (as_words [(1, - 2)]))
   \<and> spec_buffer (as_words [(1, - 2)]) = [0, 1, 255, 254]
   \<and> spec_subject_id (as_words [(1, - 2)]) = ''50d2419ec6481e50c7dc209833437157''"
proof -
  have h: "coords_fit [(1, - 2)]" by (simp add: coords_fit_def fits16_def)
  have b: "spec_buffer (as_words [(1, - 2)]) = [0, 1, 255, 254]"
    by (simp add: spec_buffer_def as_words_def be16_def)
  have d: "hexdigest (md5 [0, 1, 255, 254]) = ''50d2419ec6481e50c7dc209833437157''"
    by code_simp
  from get_face_id_is_spec_digest [OF h] show ?thesis
    using h b d by (simp add: spec_subject_id_def)
qed


section \<open>Properties of the frame loop\<close>

text \<open>
  Claim C10. Over any run of iterations whose read fails or whose camera is reported off,
  the absence timer is not touched: its state at the end, the flag \<open>is_absent\<close> and the
  time \<open>absent_since\<close>, is the state at the start, however the run ends. Of the session
  state only the timestamp stored for "Camera turned off" may change and the ledger may
  grow, by entries for the subject "unknown" and that event; the collaborators are called
  for these alerts only.
\<close>

theorem camera_off_keeps_absence:
  assumes off: "list_all (\<lambda>f. \<not> ret f \<or> \<not> camera_on f) fs"
    and run: "frame_loop env limit fs s = (e, s')"
  shows "absence s' = absence s
         \<and> is_absent (absence s') = is_absent (absence s)
         \<and> absent_since (absence s') = absent_since (absence s)
         \<and> (\<forall>k. k \<noteq> ''Camera turned off'' \<longrightarrow> last_alert_time s' k = last_alert_time s k)
         \<and> (\<exists>new. logs s' = logs s @ new
               \<and> list_all (\<lambda>x. entry_face x = ''unknown'' \<and> entry_event x = ''Camera turned off'') new)
         \<and> (\<exists>cs. calls s' = calls s @ cs
               \<and> set cs \<subseteq> set (dispatched ''unknown'' ''Camera turned off''))"
proof -
  have "only_alerts ''unknown'' ''Camera turned off'' s (snd (frame_loop env limit fs s))"
    by (rule camera_off_loop [OF off])
  then have "only_alerts ''unknown'' ''Camera turned off'' s s'" by (simp add: run)
  then show ?thesis by (simp add: only_alerts_def)
qed

theorem camera_off_keeps_absence_witness:
  "list_all (\<lambda>f. \<not> ret f \<or> \<not> camera_on f) [dark_frame 100, dark_frame 101, dark_frame 111]
   \<and> fst (frame_loop reliable 5 [dark_frame 100, dark_frame 101, dark_frame 111] away) = Pending
   \<and> map entry_time (logs (snd (frame_loop reliable 5 [dark_frame 100, dark_frame 101, dark_frame 111] away)))
       = [''stamp'', ''stamp'']
   \<and> is_absent (absence (snd (frame_loop reliable 5 [dark_frame 100, dark_frame 101, dark_frame 111] away)))
   \<and> absent_since (absence (snd (frame_loop reliable 5 [dark_frame 100, dark_frame 101, dark_frame 111] away)))
       = Some 90"
proof -
  let ?run = "frame_loop reliable 5 [dark_frame 100, dark_frame 101, dark_frame 111] away"
  have off: "list_all (\<lambda>f. \<not> ret f \<or> \<not> camera_on f) [dark_frame 100, dark_frame 101, dark_frame 111]"
    by (simp add: dark_frame_def)
  have run: "?run = (fst ?run, snd ?run)" by simp
  have f: "fst ?run = Pending" and l: "map entry_time (logs (snd ?run)) = [''stamp'', ''stamp'']"
    using dark_run by (rule conjunct1, rule conjunct2)
  have "absence (snd ?run) = absence away"
    using camera_off_keeps_absence [OF off run] by (rule conjunct1)
  then have a: "is_absent (absence (snd ?run)) \<and> absent_since (absence (snd ?run)) = Some 90"
    by simp
  show ?thesis using off f l a by (intro conjI) (rule off, rule f, rule l, simp_all only: simp_thms)
qed





text \<open>
  Claim C7, evaluated where the code departs from it. The stop flag is read at the end of
  an iteration that processed faces (line 116) and nowhere else: the iteration of a failed
  read and the iteration without a face end at \<^verbatim>\<open>continue\<close> (lines 69 and 78). With the
  flag set, after an iteration of either kind the loop is still running and the capture is
  not released, and the next iteration dispatches an alert; after an iteration that saw a
  face the loop is left, the capture is released and the next observation is not used.
\<close>

theorem stop_not_checked_without_face:
  "stop (dark_frame 100) \<and> stop (empty_frame 100) \<and> stop (faced_frame 100)
   \<and> fst (monitor_stream reliable 5 [dark_frame 100] initial) = Pending
   \<and> \<not> released (snd (monitor_stream reliable 5 [dark_frame 100] initial))
   \<and> fst (monitor_stream reliable 5 [empty_frame 100] initial) = Pending
   \<and> \<not> released (snd (monitor_stream reliable 5 [empty_frame 100] initial))
   \<and> fst (monitor_stream reliable 5 [empty_frame 100, dark_frame 101] initial) = Pending
   \<and> calls (snd (monitor_stream reliable 5 [empty_frame 100, dark_frame 101] initial))
       = dispatched ''unknown'' ''Camera turned off''
   \<and> fst (monitor_stream reliable 5 [faced_frame 100, dark_frame 101] initial) = Left
   \<and> released (snd (monitor_stream reliable 5 [faced_frame 100, dark_frame 101] initial))
   \<and> calls (snd (monitor_stream reliable 5 [faced_frame 100, dark_frame 101] initial)) = []"
proof -
  have a: "admits initial ''Camera turned off'' 100" by simp
  have d: "log_and_alert reliable 100 ''stamp'' ''unknown'' ''Camera turned off'' initial =
      Done (record_alert 100 ''stamp'' ''unknown'' ''Camera turned off''
        (initial\<lparr>calls := calls initial @ dispatched ''unknown'' ''Camera turned off''\<rparr>))"
    by (rule log_and_alert_admitted [OF a reliable_returns])
  let ?s1 = "initial\<lparr>absence := \<lparr>is_absent = True, absent_since = Some 100\<rparr>\<rparr>"
  have a1: "admits ?s1 ''Camera turned off'' 101"
    by (simp add: admits_def last_time_def ALERT_INTERVAL_def)
  have d1: "log_and_alert reliable 101 ''stamp'' ''unknown'' ''Camera turned off'' ?s1 =
      Done (record_alert 101 ''stamp'' ''unknown'' ''Camera turned off''
        (?s1\<lparr>calls := calls ?s1 @ dispatched ''unknown'' ''Camera turned off''\<rparr>))"
    by (rule log_and_alert_admitted [OF a1 reliable_returns])
  have r1: "frame_loop reliable 5 [dark_frame 100] initial =
      (Pending, record_alert 100 ''stamp'' ''unknown'' ''Camera turned off''
        (initial\<lparr>calls := calls initial @ dispatched ''unknown'' ''Camera turned off''\<rparr>))"
    by (simp only: dark_loop d result.case frame_loop.simps(1))
  have r2: "frame_loop reliable 5 [empty_frame 100] initial = (Pending, ?s1)"
    by (simp add: empty_step)
  have r3: "frame_loop reliable 5 [empty_frame 100, dark_frame 101] initial =
      (Pending, record_alert 101 ''stamp'' ''unknown'' ''Camera turned off''
        (?s1\<lparr>calls := calls ?s1 @ dispatched ''unknown'' ''Camera turned off''\<rparr>))"
    by (simp add: empty_step dark_step d1 continue_def)
  have r4: "frame_loop reliable 5 [faced_frame 100, dark_frame 101] initial =
      (Left, initial\<lparr>absence := \<lparr>is_absent = False, absent_since = None\<rparr>\<rparr>)"
    by (simp add: faced_step)
  show ?thesis
    by (simp add: monitor_stream_def r1 r2 r3 r4 record_alert_def del: frame_loop.simps)
qed

end
